theory Spec2Isabelle
  imports Main "HOL-Library.Sublist" "HOL-Library.Multiset" "HOL-Library.Log_Nat"
begin

section \<open>Data model of \<open>map_engine.py\<close>\<close>

text \<open>
  Coordinates are Python integers (the demo scene uses integer literals only), so they
  are modelled as \<open>int\<close>. The fields \<open>x\<close> and \<open>y\<close> of the source are called
  \<open>box_x\<close> and \<open>box_y\<close>, \<open>id\<close> and \<open>type\<close> are called \<open>elem_id\<close> and \<open>elem_type\<close>.
\<close>

record BoundingBox =
  box_x :: int
  box_y :: int
  width :: int
  height :: int

text \<open>\<open>BoundingBox.intersects\<close>: the negation of the four strict comparisons.\<close>

definition intersects :: "BoundingBox \<Rightarrow> BoundingBox \<Rightarrow> bool" where
  "intersects self other =
     (\<not> (box_x self + width self < box_x other \<or>
         box_x other + width other < box_x self \<or>
         box_y self + height self < box_y other \<or>
         box_y other + height other < box_y self))"

text \<open>\<open>BoundingBox.move\<close> builds a new box; the receiver is not touched.\<close>

definition move :: "BoundingBox \<Rightarrow> int \<Rightarrow> int \<Rightarrow> BoundingBox" where
  "move self dx dy =
     \<lparr>box_x = box_x self + dx, box_y = box_y self + dy,
      width = width self, height = height self\<rparr>"

record MapElement =
  elem_id :: string
  elem_type :: string
  bbox :: BoundingBox
  priority :: int
  movable :: bool
  original_bbox :: BoundingBox
  moved :: bool

text \<open>The class attribute \<open>PRIORITY\<close>, a dict literal, and \<open>dict.get\<close> with a default.\<close>

definition PRIORITY :: "(string \<times> int) list" where
  "PRIORITY = [(''road'', 10), (''river'', 10), (''label'', 1), (''icon'', 2)]"

definition PRIORITY_get :: "string \<Rightarrow> int \<Rightarrow> int" where
  "PRIORITY_get k dflt = (case map_of PRIORITY k of None \<Rightarrow> dflt | Some p \<Rightarrow> p)"

text \<open>\<open>MapElement.__init__\<close>. \<open>original_bbox\<close> is a fresh box with the four fields copied.\<close>

definition MapElement_init :: "string \<Rightarrow> string \<Rightarrow> BoundingBox \<Rightarrow> MapElement" where
  "MapElement_init i element_type b =
     (let p = PRIORITY_get element_type 0 in
      \<lparr>elem_id = i, elem_type = element_type, bbox = b, priority = p,
       movable = (p < 5),
       original_bbox =
         \<lparr>box_x = box_x b, box_y = box_y b, width = width b, height = height b\<rparr>,
       moved = False\<rparr>)"

text \<open>
  The engine keeps references to the caller's element objects and mutates them in place.
  An object is a reference (\<open>ref\<close>), the objects live in a store (\<open>heap\<close>), and the three
  lists of the engine are lists of references, so that one object listed twice is one
  object.
\<close>

type_synonym ref = nat
type_synonym heap = "ref \<Rightarrow> MapElement"

record MapDeclutterEngine =
  elements :: "ref list"
  fixed_elements :: "ref list"
  movable_elements :: "ref list"

definition MOVEMENT_OFFSETS :: "(int \<times> int) list" where
  "MOVEMENT_OFFSETS =
     [(0, -15), (0, 15), (15, 0), (-15, 0), (15, -15), (-15, -15), (15, 15), (-15, 15)]"

text \<open>\<open>MapDeclutterEngine.__init__\<close>: two list comprehensions over the input list.\<close>

definition MapDeclutterEngine_init :: "heap \<Rightarrow> ref list \<Rightarrow> MapDeclutterEngine" where
  "MapDeclutterEngine_init h els =
     \<lparr>elements = els,
      fixed_elements = filter (\<lambda>e. \<not> movable (h e)) els,
      movable_elements = filter (\<lambda>e. movable (h e)) els\<rparr>"

definition detect_overlap :: "heap \<Rightarrow> ref \<Rightarrow> ref \<Rightarrow> bool" where
  "detect_overlap h elem_a elem_b = intersects (bbox (h elem_a)) (bbox (h elem_b))"

text \<open>\<open>find_overlaps\<close> scans all elements and skips those with the id of the target.\<close>

definition find_overlaps :: "MapDeclutterEngine \<Rightarrow> heap \<Rightarrow> ref \<Rightarrow> ref list" where
  "find_overlaps eng h element =
     filter (\<lambda>other. elem_id (h other) \<noteq> elem_id (h element) \<and> detect_overlap h element other)
       (elements eng)"

text \<open>\<open>_is_valid_position\<close>: the loop over \<open>fixed_elements\<close> with its early return.\<close>

fun is_valid_scan :: "heap \<Rightarrow> BoundingBox \<Rightarrow> ref list \<Rightarrow> bool" where
  "is_valid_scan h b [] = True"
| "is_valid_scan h b (fixed # rest) =
     (if intersects b (bbox (h fixed)) then False else is_valid_scan h b rest)"

definition is_valid_position :: "MapDeclutterEngine \<Rightarrow> heap \<Rightarrow> BoundingBox \<Rightarrow> string \<Rightarrow> bool" where
  "is_valid_position eng h b element_id = is_valid_scan h b (fixed_elements eng)"

text \<open>\<open>_reposition_element\<close>: the first valid candidate, or \<open>None\<close>.\<close>

fun reposition_scan ::
  "MapDeclutterEngine \<Rightarrow> heap \<Rightarrow> ref \<Rightarrow> (int \<times> int) list \<Rightarrow> BoundingBox option" where
  "reposition_scan eng h element [] = None"
| "reposition_scan eng h element ((dx, dy) # rest) =
     (let candidate_bbox = move (bbox (h element)) dx dy in
      if is_valid_position eng h candidate_bbox (elem_id (h element))
      then Some candidate_bbox
      else reposition_scan eng h element rest)"

definition reposition_element :: "MapDeclutterEngine \<Rightarrow> heap \<Rightarrow> ref \<Rightarrow> BoundingBox option" where
  "reposition_element eng h element = reposition_scan eng h element MOVEMENT_OFFSETS"

text \<open>
  The body of the inner \<open>for\<close> loop of \<open>resolve_clutter\<close> for one movable element; the
  state is the store and the flag \<open>resolved_any\<close>.
\<close>

definition resolve_step :: "MapDeclutterEngine \<Rightarrow> ref \<Rightarrow> heap \<times> bool \<Rightarrow> heap \<times> bool" where
  "resolve_step eng m s =
     (case s of (h, resolved_any) \<Rightarrow>
        let overlaps = filter (\<lambda>e. \<not> movable (h e)) (find_overlaps eng h m) in
        if overlaps \<noteq> [] then
          (case reposition_element eng h m of
             Some new_bbox \<Rightarrow> (h(m := (h m)\<lparr>bbox := new_bbox, moved := True\<rparr>), True)
           | None \<Rightarrow> (h, resolved_any))
        else (h, resolved_any))"

fun resolve_pass :: "MapDeclutterEngine \<Rightarrow> ref list \<Rightarrow> heap \<times> bool \<Rightarrow> heap \<times> bool" where
  "resolve_pass eng [] s = s"
| "resolve_pass eng (m # ms) s = resolve_pass eng ms (resolve_step eng m s)"

definition max_iterations :: nat where
  "max_iterations = 10"

text \<open>The \<open>while\<close> loop; it returns the store it leaves behind and \<open>iteration\<close>.\<close>

function resolve_loop :: "MapDeclutterEngine \<Rightarrow> heap \<Rightarrow> nat \<Rightarrow> heap \<times> nat" where
  "resolve_loop eng h iteration =
     (if iteration < max_iterations then
        (case resolve_pass eng (movable_elements eng) (h, False) of
           (h', resolved_any) \<Rightarrow>
             if \<not> resolved_any then (h', iteration + 1)
             else resolve_loop eng h' (iteration + 1))
      else (h, iteration))"
  by pat_completeness auto
termination
  by (relation "measure (\<lambda>(eng, h, iteration). max_iterations - iteration)") auto

declare resolve_loop.simps [simp del]

definition resolve_clutter :: "MapDeclutterEngine \<Rightarrow> heap \<Rightarrow> heap \<times> nat" where
  "resolve_clutter eng h = resolve_loop eng h 0"

section \<open>Floating-point arithmetic and \<open>get_statistics\<close>\<close>

text \<open>
  \<open>move_percentage\<close> is computed with Python floats, which are IEEE 754 binary64 numbers.
  A float is modelled as the rational number it denotes. \<open>round_double\<close> rounds a rational
  to the nearest number with a 53-bit significand, ties going to the even significand, as
  every binary64 operation does in the default rounding mode. The exponent is not bounded
  here: binary64 agrees with this on all magnitudes from \<open>2 ^ (- 1022)\<close> up to its largest
  finite number, and the quotient of two list lengths and a percentage lie well inside
  that range.

  \<open>ilog2 x\<close> is the exponent \<open>e\<close> with \<open>2 ^ e \<le> x < 2 ^ (e + 1)\<close> for positive \<open>x\<close>.
\<close>

definition ilog2 :: "rat \<Rightarrow> int" where
  "ilog2 x = (if 1 \<le> x then bitlen \<lfloor>x\<rfloor> - 1 else - bitlen (\<lceil>1 / x\<rceil> - 1))"

definition round_half_even :: "rat \<Rightarrow> int" where
  "round_half_even q =
     (let f = \<lfloor>q\<rfloor>; r = q - of_int f in
      if r < 1 / 2 then f
      else if 1 / 2 < r then f + 1
      else if even f then f else f + 1)"

definition round_double :: "rat \<Rightarrow> rat" where
  "round_double x =
     (if x = 0 then 0
      else let y = \<bar>x\<bar>; u = power_int 2 (ilog2 y - 52);
               n = of_int (round_half_even (y / u)) * u
           in if x < 0 then - n else n)"

text \<open>
  The operations used by \<open>get_statistics\<close>: \<open>int / int\<close> is the correctly rounded quotient,
  \<open>float * int\<close> converts the integer to a float and multiplies.
\<close>

definition int_truediv :: "int \<Rightarrow> int \<Rightarrow> rat" where
  "int_truediv a b = round_double (of_int a / of_int b)"

definition float_of_int :: "int \<Rightarrow> rat" where
  "float_of_int n = round_double (of_int n)"

definition float_mul :: "rat \<Rightarrow> rat \<Rightarrow> rat" where
  "float_mul x y = round_double (x * y)"

text \<open>
  The dict returned by \<open>get_statistics\<close>, its keys prefixed with \<open>stat_\<close>. In its \<open>else\<close>
  branch \<open>move_percentage\<close> is the integer \<open>0\<close>, here the rational \<open>0\<close>.
\<close>

record Statistics =
  stat_total_elements :: int
  stat_fixed_elements :: int
  stat_movable_elements :: int
  stat_elements_moved :: int
  stat_move_percentage :: rat

definition get_statistics :: "MapDeclutterEngine \<Rightarrow> heap \<Rightarrow> Statistics" where
  "get_statistics eng h =
     (let moved_count = sum_list (map (\<lambda>e. 1) (filter (\<lambda>e. moved (h e)) (movable_elements eng)));
          total_movable = int (length (movable_elements eng)) in
      \<lparr>stat_total_elements = int (length (elements eng)),
       stat_fixed_elements = int (length (fixed_elements eng)),
       stat_movable_elements = total_movable,
       stat_elements_moved = moved_count,
       stat_move_percentage =
         (if total_movable > 0
          then float_mul (int_truediv moved_count total_movable) (float_of_int 100)
          else 0)\<rparr>)"

section \<open>The intersection test in the words of the specification\<close>

definition strictly_separated_x :: "BoundingBox \<Rightarrow> BoundingBox \<Rightarrow> bool" where
  "strictly_separated_x a b =
     (box_x a + width a < box_x b \<or> box_x b + width b < box_x a)"

definition strictly_separated_y :: "BoundingBox \<Rightarrow> BoundingBox \<Rightarrow> bool" where
  "strictly_separated_y a b =
     (box_y a + height a < box_y b \<or> box_y b + height b < box_y a)"

text \<open>
  Two boxes share an edge when one ends on an axis exactly where the other starts and
  their extents on the other axis are not separated.
\<close>

definition shares_edge :: "BoundingBox \<Rightarrow> BoundingBox \<Rightarrow> bool" where
  "shares_edge a b =
     ((box_x a + width a = box_x b \<or> box_x b + width b = box_x a) \<and>
        \<not> strictly_separated_y a b \<or>
      (box_y a + height a = box_y b \<or> box_y b + height b = box_y a) \<and>
        \<not> strictly_separated_x a b)"

section \<open>Notions used in the proofs\<close>

text \<open>The list \<open>overlaps\<close> of \<open>resolve_clutter\<close>: the overlaps of an element that are not movable.\<close>

definition fixed_overlaps :: "MapDeclutterEngine \<Rightarrow> heap \<Rightarrow> ref \<Rightarrow> ref list" where
  "fixed_overlaps eng h m = filter (\<lambda>e. \<not> movable (h e)) (find_overlaps eng h m)"

text \<open>An element is settled when the loop body leaves it alone: it overlaps no fixed element
  with another id, or no candidate position is valid.\<close>

definition settled :: "MapDeclutterEngine \<Rightarrow> heap \<Rightarrow> ref \<Rightarrow> bool" where
  "settled eng h m = (fixed_overlaps eng h m = [] \<or> reposition_element eng h m = None)"

text \<open>The two derived lists of the engine agree with the \<open>movable\<close> flags in the store.\<close>

definition consistent :: "MapDeclutterEngine \<Rightarrow> heap \<Rightarrow> bool" where
  "consistent eng h =
     (fixed_elements eng = filter (\<lambda>e. \<not> movable (h e)) (elements eng) \<and>
      movable_elements eng = filter (\<lambda>e. movable (h e)) (elements eng))"

text \<open>The two assignments that commit a new position.\<close>

definition relocate :: "heap \<Rightarrow> ref \<Rightarrow> BoundingBox \<Rightarrow> heap" where
  "relocate h m nb = h(m := (h m)\<lparr>bbox := nb, moved := True\<rparr>)"



text \<open>A scene with the first road and the first label of the demo: object 2 is the road,
  object 3 the label.\<close>

definition scene_heap :: heap where
  "scene_heap =
     (\<lambda>_. MapElement_init [] [] \<lparr>box_x = 0, box_y = 0, width = 0, height = 0\<rparr>)
       (2 := MapElement_init ''road_1'' ''road'' \<lparr>box_x = 20, box_y = 80, width = 160, height = 15\<rparr>,
        3 := MapElement_init ''L1'' ''label'' \<lparr>box_x = 30, box_y = 83, width = 25, height = 12\<rparr>)"

text \<open>The same scene with one id given to both elements, against the data model, which
  assumes ids to be unique; the engine does not check ids.\<close>

definition clash_heap :: heap where
  "clash_heap =
     (\<lambda>_. MapElement_init [] [] \<lparr>box_x = 0, box_y = 0, width = 0, height = 0\<rparr>)
       (2 := MapElement_init ''a'' ''road'' \<lparr>box_x = 20, box_y = 80, width = 160, height = 15\<rparr>,
        3 := MapElement_init ''a'' ''label'' \<lparr>box_x = 30, box_y = 83, width = 25, height = 12\<rparr>)"

text \<open>The first scene with two more labels away from the road: objects 4 and 5. After
  \<open>resolve_clutter\<close> one of the three movable elements has moved.\<close>

definition thirds_heap :: heap where
  "thirds_heap =
     (\<lambda>_. MapElement_init [] [] \<lparr>box_x = 0, box_y = 0, width = 0, height = 0\<rparr>)
       (2 := MapElement_init ''road_1'' ''road'' \<lparr>box_x = 20, box_y = 80, width = 160, height = 15\<rparr>,
        3 := MapElement_init ''L1'' ''label'' \<lparr>box_x = 30, box_y = 83, width = 25, height = 12\<rparr>,
        4 := MapElement_init ''L2'' ''label'' \<lparr>box_x = 30, box_y = 20, width = 25, height = 12\<rparr>,
        5 := MapElement_init ''L3'' ''label'' \<lparr>box_x = 90, box_y = 20, width = 25, height = 12\<rparr>)"

definition thirds_engine :: MapDeclutterEngine where
  "thirds_engine = MapDeclutterEngine_init thirds_heap [2, 3, 4, 5]"

definition thirds_after :: heap where
  "thirds_after = fst (resolve_clutter thirds_engine thirds_heap)"

section \<open>Bounding boxes\<close>

text \<open>
  C3: for boxes with non-negative widths and heights, \<open>intersects\<close> holds exactly when
  the boxes are strictly separated on neither axis, and boxes that share an edge
  (for instance \<open>a.x + a.width = b.x\<close> with overlapping vertical extents) intersect.
\<close>

theorem intersects_iff_not_separated:
  assumes "0 \<le> width a" and "0 \<le> height a" and "0 \<le> width b" and "0 \<le> height b"
  shows "(intersects a b \<longleftrightarrow> \<not> strictly_separated_x a b \<and> \<not> strictly_separated_y a b) \<and>
         (shares_edge a b \<longrightarrow> intersects a b)"
  using assms
  unfolding intersects_def strictly_separated_x_def strictly_separated_y_def shares_edge_def
  by auto

theorem intersects_iff_not_separated_witness:
  "0 \<le> width \<lparr>box_x = 0, box_y = 0, width = 10, height = 10\<rparr> \<and>
   0 \<le> height \<lparr>box_x = 0, box_y = 0, width = 10, height = 10\<rparr> \<and>
   0 \<le> width \<lparr>box_x = 10, box_y = 5, width = 10, height = 10\<rparr> \<and>
   0 \<le> height \<lparr>box_x = 10, box_y = 5, width = 10, height = 10\<rparr> \<and>
   shares_edge \<lparr>box_x = 0, box_y = 0, width = 10, height = 10\<rparr>
     \<lparr>box_x = 10, box_y = 5, width = 10, height = 10\<rparr> \<and>
   intersects \<lparr>box_x = 0, box_y = 0, width = 10, height = 10\<rparr>
     \<lparr>box_x = 10, box_y = 5, width = 10, height = 10\<rparr>"
  using intersects_iff_not_separated
    [of "\<lparr>box_x = 0, box_y = 0, width = 10, height = 10\<rparr>"
        "\<lparr>box_x = 10, box_y = 5, width = 10, height = 10\<rparr>"]
  by (simp add: shares_edge_def strictly_separated_x_def strictly_separated_y_def)

section \<open>Map elements\<close>

text \<open>
  C6: a constructed element has priority 10 for the types road and river, 1 for label,
  2 for icon and 0 for every other string, and it is movable exactly when its priority
  is below 5.
\<close>

theorem MapElement_init_priority:
  "priority (MapElement_init i t b) =
     (if t = ''road'' \<or> t = ''river'' then 10
      else if t = ''label'' then 1
      else if t = ''icon'' then 2
      else 0) \<and>
   movable (MapElement_init i t b) = (priority (MapElement_init i t b) < 5)"
  by (simp add: MapElement_init_def PRIORITY_get_def PRIORITY_def Let_def)

section \<open>Engine construction\<close>

text \<open>
  C9: after construction \<open>fixed_elements\<close> is the subsequence of the input with
  \<open>movable\<close> false and \<open>movable_elements\<close> the subsequence with \<open>movable\<close> true; as
  multisets the two lists add up to the input, and each is a subsequence of the input,
  so the input order is kept.
\<close>

theorem init_partitions_input:
  "fixed_elements (MapDeclutterEngine_init h els) = filter (\<lambda>e. \<not> movable (h e)) els \<and>
   movable_elements (MapDeclutterEngine_init h els) = filter (\<lambda>e. movable (h e)) els \<and>
   mset (fixed_elements (MapDeclutterEngine_init h els)) +
     mset (movable_elements (MapDeclutterEngine_init h els)) = mset els \<and>
   subseq (fixed_elements (MapDeclutterEngine_init h els)) els \<and>
   subseq (movable_elements (MapDeclutterEngine_init h els)) els \<and>
   elements (MapDeclutterEngine_init h els) = els"
  by (simp add: MapDeclutterEngine_init_def add.commute)

section \<open>The repositioning loop\<close>

lemma is_valid_scan_iff:
  "is_valid_scan h b fs \<longleftrightarrow> (\<forall>f\<in>set fs. \<not> intersects b (bbox (h f)))"
  by (induction fs) auto

lemma reposition_scan_None_iff:
  "reposition_scan eng h m offs = None \<longleftrightarrow>
     (\<forall>(dx, dy)\<in>set offs. \<not> is_valid_position eng h (move (bbox (h m)) dx dy) (elem_id (h m)))"
  by (induction offs) (auto simp: Let_def split: if_splits)

lemma reposition_scan_Some_valid:
  "reposition_scan eng h m offs = Some nb \<Longrightarrow> is_valid_position eng h nb (elem_id (h m))"
  by (induction offs) (auto simp: Let_def split: if_splits)

lemma resolve_step_cases:
  "resolve_step eng m (h, b) = (h, b) \<and> settled eng h m \<or>
   (\<exists>nb. reposition_element eng h m = Some nb \<and> fixed_overlaps eng h m \<noteq> [] \<and>
      resolve_step eng m (h, b) = (relocate h m nb, True))"
  by (auto simp: resolve_step_def settled_def fixed_overlaps_def relocate_def Let_def split: option.splits)

lemma settled_step:
  "settled eng h m \<Longrightarrow> resolve_step eng m (h, b) = (h, b)"
  by (auto simp: resolve_step_def settled_def fixed_overlaps_def Let_def split: option.splits)

lemma consistent_init: "consistent (MapDeclutterEngine_init h els) h"
  by (simp add: consistent_def MapDeclutterEngine_init_def)

lemma consistent_relocate:
  "consistent eng h \<Longrightarrow> consistent eng (relocate h m nb)"
  unfolding consistent_def relocate_def
  by (auto intro!: filter_cong)

lemma fixed_overlaps_consistent:
  "consistent eng h \<Longrightarrow>
   fixed_overlaps eng h m =
     filter (\<lambda>f. elem_id (h f) \<noteq> elem_id (h m) \<and> intersects (bbox (h m)) (bbox (h f)))
       (fixed_elements eng)"
  unfolding consistent_def fixed_overlaps_def find_overlaps_def detect_overlap_def
  by (auto intro!: filter_cong)

lemma fixed_not_movable:
  "consistent eng h \<Longrightarrow> f \<in> set (fixed_elements eng) \<Longrightarrow> \<not> movable (h f)"
  unfolding consistent_def by auto

lemma movable_is_movable:
  "consistent eng h \<Longrightarrow> m \<in> set (movable_elements eng) \<Longrightarrow> movable (h m)"
  unfolding consistent_def by auto

lemma relocate_other: "e \<noteq> m \<Longrightarrow> relocate h m nb e = h e"
  by (simp add: relocate_def)

lemma relocate_self:
  "bbox (relocate h m nb m) = nb \<and> elem_id (relocate h m nb m) = elem_id (h m) \<and>
   movable (relocate h m nb m) = movable (h m)"
  by (simp add: relocate_def)

lemma is_valid_relocate:
  assumes "consistent eng h" and "movable (h m')"
  shows "is_valid_position eng (relocate h m' nb) b i = is_valid_position eng h b i"
proof -
  have "\<forall>f\<in>set (fixed_elements eng). relocate h m' nb f = h f"
    using assms fixed_not_movable relocate_other by metis
  then show ?thesis
    by (simp add: is_valid_position_def is_valid_scan_iff)
qed

lemma reposition_scan_relocate_other:
  assumes "consistent eng h" and "movable (h m')" and "m \<noteq> m'"
  shows "reposition_scan eng (relocate h m' nb) m offs = reposition_scan eng h m offs"
proof (induction offs)
  case Nil
  then show ?case by simp
next
  case (Cons off offs)
  obtain dx dy where off: "off = (dx, dy)" by (cases off)
  show ?case
    using Cons.IH
    by (simp add: off Let_def is_valid_relocate [OF assms(1,2)] relocate_other [OF assms(3)]
        cong: if_cong)
qed

lemma fixed_overlaps_relocate_other:
  assumes "consistent eng h" and "movable (h m')" and "m \<noteq> m'"
  shows "fixed_overlaps eng (relocate h m' nb) m = fixed_overlaps eng h m"
proof -
  have same: "\<forall>f\<in>set (fixed_elements eng). relocate h m' nb f = h f"
    using assms fixed_not_movable relocate_other by metis
  have "consistent eng (relocate h m' nb)"
    using assms(1) by (rule consistent_relocate)
  then show ?thesis
    using same
    by (simp add: fixed_overlaps_consistent assms(1) relocate_other [OF assms(3)] cong: filter_cong)
qed

lemma settled_relocate_other:
  assumes "consistent eng h" and "movable (h m')" and "m \<noteq> m'"
  shows "settled eng (relocate h m' nb) m = settled eng h m"
  by (simp add: settled_def reposition_element_def fixed_overlaps_relocate_other [OF assms]
      reposition_scan_relocate_other [OF assms])

lemma settled_relocate_self:
  assumes "consistent eng h" and "movable (h m)" and "reposition_element eng h m = Some nb"
  shows "settled eng (relocate h m nb) m"
proof -
  have valid: "\<forall>f\<in>set (fixed_elements eng). \<not> intersects nb (bbox (h f))"
    using reposition_scan_Some_valid assms(3)
    by (simp add: reposition_element_def is_valid_position_def is_valid_scan_iff [symmetric])
  have same: "\<forall>f\<in>set (fixed_elements eng). relocate h m nb f = h f"
    using assms(1,2) fixed_not_movable relocate_other by metis
  have "consistent eng (relocate h m nb)"
    using assms(1) by (rule consistent_relocate)
  then have "fixed_overlaps eng (relocate h m nb) m = []"
    using valid same by (simp add: fixed_overlaps_consistent relocate_self)
  then show ?thesis by (simp add: settled_def)
qed

lemma step_consistent:
  "consistent eng h \<Longrightarrow> consistent eng (fst (resolve_step eng m (h, b)))"
  using resolve_step_cases [of eng m h b] by (auto simp: consistent_relocate)

lemma step_settles:
  "consistent eng h \<Longrightarrow> movable (h m) \<Longrightarrow> settled eng (fst (resolve_step eng m (h, b))) m"
  using resolve_step_cases [of eng m h b] by (auto simp: settled_relocate_self)

lemma step_keeps_settled:
  assumes "consistent eng h" and "movable (h m')" and "settled eng h m"
  shows "settled eng (fst (resolve_step eng m' (h, b))) m"
proof (cases "m = m'")
  case True
  then show ?thesis using assms(3) by (simp add: settled_step)
next
  case False
  then show ?thesis
    using resolve_step_cases [of eng m' h b] assms
    by (auto simp: settled_relocate_other)
qed

lemma pass_consistent:
  "consistent eng h \<Longrightarrow> consistent eng (fst (resolve_pass eng ms (h, b)))"
proof (induction ms arbitrary: h b)
  case Nil
  then show ?case by simp
next
  case (Cons m ms)
  obtain h1 b1 where s: "resolve_step eng m (h, b) = (h1, b1)" by (cases "resolve_step eng m (h, b)")
  then have "consistent eng h1" using step_consistent [OF Cons.prems, of m b] by simp
  then show ?case using Cons.IH s by simp
qed

lemma pass_keeps_settled:
  "consistent eng h \<Longrightarrow> set ms \<subseteq> set (movable_elements eng) \<Longrightarrow> settled eng h m \<Longrightarrow>
   settled eng (fst (resolve_pass eng ms (h, b))) m"
proof (induction ms arbitrary: h b)
  case Nil
  then show ?case by simp
next
  case (Cons m' ms)
  obtain h1 b1 where s: "resolve_step eng m' (h, b) = (h1, b1)"
    by (cases "resolve_step eng m' (h, b)")
  have mv: "movable (h m')" using Cons.prems(1,2) movable_is_movable by simp
  have c1: "consistent eng h1" using step_consistent [OF Cons.prems(1), of m' b] s by simp
  have s1: "settled eng h1 m"
    using step_keeps_settled [OF Cons.prems(1) mv Cons.prems(3), of b] s by simp
  show ?case using Cons.IH [OF c1 _ s1] Cons.prems(2) s by simp
qed

lemma pass_settles:
  "consistent eng h \<Longrightarrow> set ms \<subseteq> set (movable_elements eng) \<Longrightarrow> m \<in> set ms \<Longrightarrow>
   settled eng (fst (resolve_pass eng ms (h, b))) m"
proof (induction ms arbitrary: h b)
  case Nil
  then show ?case by simp
next
  case (Cons m' ms)
  obtain h1 b1 where s: "resolve_step eng m' (h, b) = (h1, b1)"
    by (cases "resolve_step eng m' (h, b)")
  have mv: "movable (h m')" using Cons.prems(1,2) movable_is_movable by simp
  have c1: "consistent eng h1" using step_consistent [OF Cons.prems(1), of m' b] s by simp
  have sub: "set ms \<subseteq> set (movable_elements eng)" using Cons.prems(2) by simp
  show ?case
  proof (cases "m = m'")
    case True
    have "settled eng h1 m" using step_settles [OF Cons.prems(1) mv, of b] s True by simp
    then show ?thesis using pass_keeps_settled [OF c1 sub, of m b1] s by simp
  next
    case False
    then have "m \<in> set ms" using Cons.prems(3) by simp
    then show ?thesis using Cons.IH [OF c1 sub] s by simp
  qed
qed

lemma pass_settled_id:
  "\<forall>m\<in>set ms. settled eng h m \<Longrightarrow> resolve_pass eng ms (h, b) = (h, b)"
  by (induction ms) (simp_all add: settled_step)

lemma pass_fixpoint:
  assumes "consistent eng h"
    and "resolve_pass eng (movable_elements eng) (h, b) = (h1, b1)"
  shows "resolve_pass eng (movable_elements eng) (h1, b2) = (h1, b2)"
proof -
  have "\<forall>m\<in>set (movable_elements eng). settled eng h1 m"
    using pass_settles [OF assms(1), of "movable_elements eng" _ b] assms(2) by simp
  then show ?thesis by (rule pass_settled_id)
qed

lemma resolve_clutter_unroll:
  assumes "consistent eng h"
    and "resolve_pass eng (movable_elements eng) (h, False) = (h1, any1)"
  shows "resolve_clutter eng h = (h1, if any1 then 2 else 1)"
proof (cases any1)
  case False
  then show ?thesis
    unfolding resolve_clutter_def
    by (subst resolve_loop.simps) (simp add: max_iterations_def assms(2))
next
  case True
  have second: "resolve_loop eng h1 (Suc 0) = (h1, 2)"
    by (subst resolve_loop.simps) (simp add: max_iterations_def pass_fixpoint [OF assms])
  show ?thesis
    unfolding resolve_clutter_def
    by (subst resolve_loop.simps) (simp add: max_iterations_def assms(2) True second)
qed

lemma step_relocate_other:
  assumes "consistent eng h" and "movable (h m')" and "m \<noteq> m'"
  shows "fst (resolve_step eng m (relocate h m' nb, b')) m = fst (resolve_step eng m (h, b)) m"
  using assms(3)
  by (simp add: resolve_step_def Let_def reposition_element_def
      fixed_overlaps_relocate_other [OF assms, unfolded fixed_overlaps_def]
      reposition_scan_relocate_other [OF assms] relocate_other split: option.splits)

lemma pass_settled_fix:
  "consistent eng h \<Longrightarrow> set ms \<subseteq> set (movable_elements eng) \<Longrightarrow> settled eng h m \<Longrightarrow>
   fst (resolve_pass eng ms (h, b)) m = h m"
proof (induction ms arbitrary: h b)
  case Nil
  then show ?case by simp
next
  case (Cons m' ms)
  obtain h1 b1 where s: "resolve_step eng m' (h, b) = (h1, b1)"
    by (cases "resolve_step eng m' (h, b)")
  have mv: "movable (h m')" using Cons.prems(1,2) movable_is_movable by simp
  have c1: "consistent eng h1" using step_consistent [OF Cons.prems(1), of m' b] s by simp
  have s1: "settled eng h1 m"
    using step_keeps_settled [OF Cons.prems(1) mv Cons.prems(3), of b] s by simp
  have same: "h1 m = h m"
  proof (cases "m = m'")
    case True
    then show ?thesis using settled_step [OF Cons.prems(3), of b] s by simp
  next
    case False
    then show ?thesis using resolve_step_cases [of eng m' h b] s by (auto simp: relocate_other)
  qed
  show ?case using Cons.IH [OF c1 _ s1, of b1] Cons.prems(2) s same by simp
qed

lemma pass_at:
  "consistent eng h \<Longrightarrow> set ms \<subseteq> set (movable_elements eng) \<Longrightarrow>
   fst (resolve_pass eng ms (h, b)) m =
     (if m \<in> set ms then fst (resolve_step eng m (h, b)) m else h m)"
proof (induction ms arbitrary: h b)
  case Nil
  then show ?case by simp
next
  case (Cons m' ms)
  obtain h1 b1 where s: "resolve_step eng m' (h, b) = (h1, b1)"
    by (cases "resolve_step eng m' (h, b)")
  have mv: "movable (h m')" using Cons.prems(1,2) movable_is_movable by simp
  have c1: "consistent eng h1" using step_consistent [OF Cons.prems(1), of m' b] s by simp
  have sub: "set ms \<subseteq> set (movable_elements eng)" using Cons.prems(2) by simp
  show ?case
  proof (cases "m = m'")
    case True
    have "settled eng h1 m" using step_settles [OF Cons.prems(1) mv, of b] s True by simp
    then have "fst (resolve_pass eng ms (h1, b1)) m = h1 m"
      using pass_settled_fix [OF c1 sub] by simp
    then show ?thesis using s True by simp
  next
    case False
    have h1m: "h1 m = h m"
      using resolve_step_cases [of eng m' h b] s False by (auto simp: relocate_other)
    have step_same: "fst (resolve_step eng m (h1, b1)) m = fst (resolve_step eng m (h, b)) m"
    proof -
      consider "h1 = h" and "b1 = b"
        | nb where "h1 = relocate h m' nb"
        using resolve_step_cases [of eng m' h b] s by auto
      then show ?thesis
      proof cases
        case 1
        then show ?thesis by simp
      next
        case 2
        then show ?thesis
          using step_relocate_other [OF Cons.prems(1) mv False, of nb b1 b] by simp
      qed
    qed
    show ?thesis using Cons.IH [OF c1 sub, of b1] s False h1m step_same by simp
  qed
qed

lemma resolve_clutter_init_unroll:
  assumes "resolve_pass (MapDeclutterEngine_init h els)
             (movable_elements (MapDeclutterEngine_init h els)) (h, False) = (h1, any1)"
  shows "resolve_clutter (MapDeclutterEngine_init h els) h = (h1, if any1 then 2 else 1)"
  using resolve_clutter_unroll [OF consistent_init assms] .


lemma step_original_bbox:
  "original_bbox (fst (resolve_step eng m (h, b)) e) = original_bbox (h e)"
  using resolve_step_cases [of eng m h b] by (auto simp: relocate_def)

lemma pass_original_bbox:
  "original_bbox (fst (resolve_pass eng ms (h, b)) e) = original_bbox (h e)"
proof (induction ms arbitrary: h b)
  case Nil
  then show ?case by simp
next
  case (Cons m ms)
  obtain h1 b1 where s: "resolve_step eng m (h, b) = (h1, b1)"
    by (cases "resolve_step eng m (h, b)")
  then show ?case using Cons.IH [of h1 b1] step_original_bbox [of eng m h b e] by simp
qed

lemma loop_original_bbox:
  "original_bbox (fst (resolve_loop eng h i) e) = original_bbox (h e)"
proof (induction eng h i rule: resolve_loop.induct)
  case (1 eng h iteration)
  obtain h1 any1 where p: "resolve_pass eng (movable_elements eng) (h, False) = (h1, any1)"
    by (cases "resolve_pass eng (movable_elements eng) (h, False)")
  have h1: "original_bbox (h1 e) = original_bbox (h e)"
    using pass_original_bbox [of eng "movable_elements eng" h False e] p by simp
  show ?case
  proof (cases "iteration < max_iterations \<and> any1")
    case True
    then show ?thesis
      using "1.IH" [OF _ p [symmetric]] h1 p
      by (subst resolve_loop.simps) simp
  next
    case False
    then show ?thesis
      using h1 p by (subst resolve_loop.simps) auto
  qed
qed

lemma repeated_original_bbox:
  "original_bbox (((\<lambda>g. fst (resolve_clutter eng g)) ^^ k) h e) = original_bbox (h e)"
  by (induction k) (simp_all add: resolve_clutter_def loop_original_bbox)

lemma step_elem_id:
  "elem_id (fst (resolve_step eng m (h, b)) e) = elem_id (h e)"
  using resolve_step_cases [of eng m h b] by (auto simp: relocate_def)

lemma pass_elem_id:
  "elem_id (fst (resolve_pass eng ms (h, b)) e) = elem_id (h e)"
proof (induction ms arbitrary: h b)
  case Nil
  then show ?case by simp
next
  case (Cons m ms)
  obtain h1 b1 where s: "resolve_step eng m (h, b) = (h1, b1)"
    by (cases "resolve_step eng m (h, b)")
  then show ?case using Cons.IH [of h1 b1] step_elem_id [of eng m h b e] by simp
qed

lemma MapElement_init_sel:
  "elem_id (MapElement_init i t b) = i"
  "elem_type (MapElement_init i t b) = t"
  "bbox (MapElement_init i t b) = b"
  "original_bbox (MapElement_init i t b) = b"
  "moved (MapElement_init i t b) = False"
  "priority (MapElement_init i t b) = PRIORITY_get t 0"
  "movable (MapElement_init i t b) = (PRIORITY_get t 0 < 5)"
  by (simp_all add: MapElement_init_def Let_def)

lemma PRIORITY_get_known:
  "PRIORITY_get ''road'' 0 = 10" "PRIORITY_get ''label'' 0 = 1"
  by (simp_all add: PRIORITY_get_def PRIORITY_def)

lemma only_fixed:
  assumes "r \<in> set els" and "\<not> movable (h r)" and "\<forall>e\<in>set els. \<not> movable (h e) \<longrightarrow> e = r"
  shows "set (fixed_elements (MapDeclutterEngine_init h els)) = {r}"
proof -
  have "set (fixed_elements (MapDeclutterEngine_init h els)) = {e \<in> set els. \<not> movable (h e)}"
    by (simp add: MapDeclutterEngine_init_def)
  also have "\<dots> = {r}"
    using assms by blast
  finally show ?thesis .
qed

lemma valid_single:
  assumes "set (fixed_elements eng) = {r}"
  shows "is_valid_position eng h b i = (\<not> intersects b (bbox (h r)))"
  by (simp add: is_valid_position_def is_valid_scan_iff assms)

lemma reposition_label:
  assumes "set (fixed_elements eng) = {r}"
    and "bbox (h l) = \<lparr>box_x = 30, box_y = 83, width = 25, height = 12\<rparr>"
    and "bbox (h r) = \<lparr>box_x = 20, box_y = 80, width = 160, height = 15\<rparr>"
  shows "reposition_element eng h l = Some \<lparr>box_x = 30, box_y = 98, width = 25, height = 12\<rparr>"
  by (simp add: reposition_element_def MOVEMENT_OFFSETS_def valid_single [OF assms(1)] assms(2,3)
      move_def intersects_def)

lemma label_road_aux:
  assumes "l \<in> set els" and "r \<in> set els"
    and "h l = MapElement_init lid ''label'' \<lparr>box_x = 30, box_y = 83, width = 25, height = 12\<rparr>"
    and "h r = MapElement_init rid ''road'' \<lparr>box_x = 20, box_y = 80, width = 160, height = 15\<rparr>"
    and "\<forall>e\<in>set els. \<not> movable (h e) \<longrightarrow> e = r"
    and "lid \<noteq> rid"
  shows "bbox (fst (resolve_clutter (MapDeclutterEngine_init h els) h) l) =
           \<lparr>box_x = 30, box_y = 98, width = 25, height = 12\<rparr> \<and>
         moved (fst (resolve_clutter (MapDeclutterEngine_init h els) h) l)"
proof -
  let ?eng = "MapDeclutterEngine_init h els"
  obtain h1 any1 where p: "resolve_pass ?eng (movable_elements ?eng) (h, False) = (h1, any1)"
    by (cases "resolve_pass ?eng (movable_elements ?eng) (h, False)")
  have fin: "fst (resolve_clutter ?eng h) = h1"
    by (simp add: resolve_clutter_init_unroll [OF p])
  have ml: "movable (h l)"
    by (simp add: assms(3) MapElement_init_sel PRIORITY_get_known)
  have mr: "\<not> movable (h r)"
    by (simp add: assms(4) MapElement_init_sel PRIORITY_get_known)
  have bl: "bbox (h l) = \<lparr>box_x = 30, box_y = 83, width = 25, height = 12\<rparr>"
    by (simp add: assms(3) MapElement_init_sel)
  have br: "bbox (h r) = \<lparr>box_x = 20, box_y = 80, width = 160, height = 15\<rparr>"
    by (simp add: assms(4) MapElement_init_sel)
  have ids: "elem_id (h r) \<noteq> elem_id (h l)"
    using assms(6) by (simp add: assms(3,4) MapElement_init_sel)
  have fixed: "set (fixed_elements ?eng) = {r}"
    using assms(2) mr assms(5) by (rule only_fixed)
  have lmov: "l \<in> set (movable_elements ?eng)"
    using assms(1) ml by (simp add: MapDeclutterEngine_init_def)
  have "intersects (bbox (h l)) (bbox (h r))"
    by (simp add: bl br intersects_def)
  then have "r \<in> set (fixed_overlaps ?eng h l)"
    using ids by (simp add: fixed_overlaps_consistent [OF consistent_init] fixed)
  then have ov: "filter (\<lambda>e. \<not> movable (h e)) (find_overlaps ?eng h l) \<noteq> []"
    unfolding fixed_overlaps_def by (metis empty_iff empty_set)
  have rep: "reposition_element ?eng h l =
      Some \<lparr>box_x = 30, box_y = 98, width = 25, height = 12\<rparr>"
    using fixed bl br by (rule reposition_label)
  have step: "resolve_step ?eng l (h, False) =
      (h(l := (h l)\<lparr>bbox := \<lparr>box_x = 30, box_y = 98, width = 25, height = 12\<rparr>, moved := True\<rparr>), True)"
    using ov by (simp add: resolve_step_def rep)
  have "h1 l = fst (resolve_step ?eng l (h, False)) l"
    using pass_at [OF consistent_init subset_refl, of h els False l] p lmov by simp
  then have "h1 l = (h l)\<lparr>bbox := \<lparr>box_x = 30, box_y = 98, width = 25, height = 12\<rparr>, moved := True\<rparr>"
    by (simp add: step)
  then show ?thesis by (simp add: fin)
qed

section \<open>Rounding\<close>

lemma bitlen_pos: "0 < n \<Longrightarrow> 1 \<le> bitlen n"
  using bitlen_eq_zero_iff [of n] bitlen_nonneg [of n] by linarith

lemma ilog2_lower_ge1:
  assumes "1 \<le> x"
  shows "power_int 2 (ilog2 x) \<le> x" and "x < power_int 2 (ilog2 x + 1)"
proof -
  let ?n = "\<lfloor>x\<rfloor>"
  have n: "0 < ?n" using assms by simp
  have b: "1 \<le> bitlen ?n" using n by (rule bitlen_pos)
  have lo: "2 ^ nat (bitlen ?n - 1) \<le> ?n" and hi: "?n < 2 ^ nat (bitlen ?n)"
    using bitlen_bounds [OF n] by simp_all
  have e: "ilog2 x = bitlen ?n - 1" using assms by (simp add: ilog2_def)
  have "(2::rat) ^ nat (bitlen ?n - 1) = of_int (2 ^ nat (bitlen ?n - 1))" by simp
  also have "\<dots> \<le> of_int ?n" using lo by (simp only: of_int_le_iff)
  also have "\<dots> \<le> x" by (rule of_int_floor_le)
  finally show "power_int 2 (ilog2 x) \<le> x"
    using b by (simp add: e power_int_def)
  have "?n + 1 \<le> 2 ^ nat (bitlen ?n)" using hi by simp
  then have "(of_int (?n + 1) :: rat) \<le> of_int (2 ^ nat (bitlen ?n))"
    by (simp only: of_int_le_iff)
  moreover have "x < of_int (?n + 1)" by simp linarith
  ultimately have "x < 2 ^ nat (bitlen ?n)" by simp
  then show "x < power_int 2 (ilog2 x + 1)"
    using b by (simp add: e power_int_def)
qed


lemma ilog2_bounds_lt1:
  assumes "0 < x" and "x < 1"
  shows "power_int 2 (ilog2 x) \<le> x" and "x < power_int 2 (ilog2 x + 1)"
proof -
  let ?y = "1 / x"
  let ?c = "\<lceil>?y\<rceil>"
  let ?k = "bitlen (?c - 1)"
  have y: "1 < ?y" using assms by simp
  then have c: "2 \<le> ?c" by (simp add: le_ceiling_iff)
  then have c1: "0 < ?c - 1" by simp
  have k: "1 \<le> ?k" using c1 by (rule bitlen_pos)
  have lo: "2 ^ nat (?k - 1) \<le> ?c - 1" and hi: "?c - 1 < 2 ^ nat ?k"
    using bitlen_bounds [OF c1] by simp_all
  have e: "ilog2 x = - ?k" using assms by (simp add: ilog2_def)
  have "?c \<le> 2 ^ nat ?k" using hi by simp
  then have cle: "(of_int ?c :: rat) \<le> of_int (2 ^ nat ?k)" by (simp only: of_int_le_iff)
  have "?y \<le> of_int ?c" by (rule le_of_int_ceiling)
  also note cle
  also have "(of_int (2 ^ nat ?k) :: rat) = 2 ^ nat ?k" by simp
  finally have "?y \<le> 2 ^ nat ?k" .
  then have "1 \<le> x * 2 ^ nat ?k"
    using assms(1) by (simp add: field_simps)
  then have "1 / 2 ^ nat ?k \<le> x"
    by (simp add: field_simps)
  then show "power_int 2 (ilog2 x) \<le> x"
    using k by (simp add: e power_int_def field_simps)
  have lo': "(of_int (2 ^ nat (?k - 1)) :: rat) \<le> of_int (?c - 1)"
    using lo by (simp only: of_int_le_iff)
  have "(2::rat) ^ nat (?k - 1) = of_int (2 ^ nat (?k - 1))" by simp
  also note lo'
  also have "(of_int (?c - 1) :: rat) < ?y" by linarith
  finally have "2 ^ nat (?k - 1) < ?y" .
  then have "x * 2 ^ nat (?k - 1) < 1"
    using assms(1) by (simp add: field_simps)
  then have lt: "x < 1 / 2 ^ nat (?k - 1)"
    by (simp add: field_simps)
  show "x < power_int 2 (ilog2 x + 1)"
  proof (cases "?k = 1")
    case True
    then show ?thesis using lt by (simp add: e)
  next
    case False
    then have "1 - ?k < 0" using k by simp
    moreover have "nat (?k - 1) = nat (- (1 - ?k))" by simp
    ultimately show ?thesis
      using lt by (simp add: e power_int_def field_simps)
  qed
qed

lemma ilog2_bounds:
  assumes "0 < x"
  shows "power_int 2 (ilog2 x) \<le> x" and "x < power_int 2 (ilog2 x + 1)"
  using assms ilog2_lower_ge1 [of x] ilog2_bounds_lt1 [of x] by (cases "1 \<le> x"; simp)+

lemma round_half_even_error: "\<bar>of_int (round_half_even q) - q\<bar> \<le> 1 / 2"
proof -
  have "of_int \<lfloor>q\<rfloor> \<le> q" and "q < of_int \<lfloor>q\<rfloor> + 1"
    by linarith+
  then show ?thesis
    by (auto simp: round_half_even_def Let_def abs_le_iff)
qed


lemma round_double_pos:
  assumes "0 < x"
  shows "round_double x =
    of_int (round_half_even (x / power_int 2 (ilog2 x - 52))) * power_int 2 (ilog2 x - 52)"
  using assms by (simp add: round_double_def Let_def)

lemma round_double_error:
  assumes "0 < x"
  shows "\<bar>round_double x - x\<bar> \<le> x / 2 ^ 53"
proof -
  define u :: rat where "u = power_int 2 (ilog2 x - 52)"
  define n :: int where "n = round_half_even (x / u)"
  have u_pos: "0 < u" by (simp add: u_def)
  have "u = power_int 2 (ilog2 x) / 2 ^ 52"
    using power_int_diff [of "2::rat" "ilog2 x" 52] by (simp add: u_def)
  also have "\<dots> \<le> x / 2 ^ 52"
    using ilog2_bounds(1) [OF assms] by (simp add: divide_right_mono)
  finally have u_le: "u \<le> x / 2 ^ 52" .
  have "of_int n * u - x = (of_int n - x / u) * u"
    using u_pos by (simp add: field_simps)
  then have "\<bar>of_int n * u - x\<bar> = \<bar>of_int n - x / u\<bar> * u"
    using u_pos by (simp add: abs_mult)
  also have "\<dots> \<le> (1 / 2) * u"
    using round_half_even_error [of "x / u"] u_pos
    by (intro mult_right_mono) (simp_all add: n_def)
  also have "\<dots> \<le> (1 / 2) * (x / 2 ^ 52)"
    using u_le by simp
  also have "\<dots> = x / 2 ^ 53" by simp
  finally show ?thesis
    by (simp add: round_double_pos [OF assms] u_def n_def)
qed

lemma percentage_error:
  assumes "0 < q"
  shows "\<bar>round_double (round_double q * 100) - 100 * q\<bar> \<le> 100 * q / 2 ^ 51"
proof -
  define a where "a = round_double q"
  have e1: "\<bar>a - q\<bar> \<le> q / 2 ^ 53"
    unfolding a_def using assms by (rule round_double_error)
  have "q / 2 ^ 53 < q" using assms by (simp add: field_simps)
  then have "\<bar>a - q\<bar> < q" using e1 by (rule le_less_trans [rotated])
  then have a_pos: "0 < a" and a_le: "a \<le> 2 * q"
    by linarith+
  have e2: "\<bar>round_double (a * 100) - a * 100\<bar> \<le> a * 100 / 2 ^ 53"
    using a_pos by (intro round_double_error) simp
  have "a * 100 / 2 ^ 53 \<le> 2 * q * 100 / 2 ^ 53"
    using a_le by (simp add: divide_right_mono)
  then have e3: "\<bar>round_double (a * 100) - a * 100\<bar> \<le> 200 * q / 2 ^ 53"
    using e2 by simp
  have "round_double (a * 100) - 100 * q = (round_double (a * 100) - a * 100) + 100 * (a - q)"
    by simp
  then have "\<bar>round_double (a * 100) - 100 * q\<bar> \<le>
        \<bar>round_double (a * 100) - a * 100\<bar> + \<bar>100 * (a - q)\<bar>"
    by (simp only: abs_triangle_ineq)
  also have "\<bar>100 * (a - q)\<bar> = 100 * \<bar>a - q\<bar>"
    by (simp only: abs_mult abs_numeral)
  finally have "\<bar>round_double (a * 100) - 100 * q\<bar> \<le>
        \<bar>round_double (a * 100) - a * 100\<bar> + 100 * \<bar>a - q\<bar>" .
  also have "\<dots> \<le> 200 * q / 2 ^ 53 + 100 * (q / 2 ^ 53)"
    using e3 e1 by (intro add_mono) simp_all
  also have "\<dots> \<le> 100 * q / 2 ^ 51"
    using assms by (simp add: field_simps)
  finally show ?thesis by (simp add: a_def)
qed

lemma round_double_exact: "round_double 0 = 0" "round_double 1 = 1" "round_double 100 = 100"
  by code_simp+

lemma sum_ones: "sum_list (map (\<lambda>e. 1::int) xs) = int (length xs)"
  by (induction xs) simp_all

lemma get_statistics_sel:
  "stat_elements_moved (get_statistics eng h) =
     int (length (filter (\<lambda>e. moved (h e)) (movable_elements eng)))"
  "stat_movable_elements (get_statistics eng h) = int (length (movable_elements eng))"
  "stat_move_percentage (get_statistics eng h) =
     (if movable_elements eng = [] then 0
      else round_double (round_double
             (of_nat (length (filter (\<lambda>e. moved (h e)) (movable_elements eng))) /
              of_nat (length (movable_elements eng))) * 100))"
  by (simp_all add: get_statistics_def Let_def sum_ones float_mul_def int_truediv_def
      float_of_int_def round_double_exact)

section \<open>Two concrete scenes\<close>

lemma scene_objects:
  "scene_heap 2 =
     MapElement_init ''road_1'' ''road'' \<lparr>box_x = 20, box_y = 80, width = 160, height = 15\<rparr>"
  "scene_heap 3 =
     MapElement_init ''L1'' ''label'' \<lparr>box_x = 30, box_y = 83, width = 25, height = 12\<rparr>"
  by (simp_all add: scene_heap_def)

lemma scene_engine:
  "MapDeclutterEngine_init scene_heap [2, 3] =
     \<lparr>elements = [2, 3], fixed_elements = [2], movable_elements = [3]\<rparr>"
  by (simp add: MapDeclutterEngine_init_def scene_objects MapElement_init_sel PRIORITY_get_known)

lemma scene_only_fixed: "\<forall>e\<in>set [2, 3]. \<not> movable (scene_heap e) \<longrightarrow> e = 2"
  by (simp add: scene_objects MapElement_init_sel PRIORITY_get_known)

lemma scene_result:
  "bbox (fst (resolve_clutter (MapDeclutterEngine_init scene_heap [2, 3]) scene_heap) 3) =
     \<lparr>box_x = 30, box_y = 98, width = 25, height = 12\<rparr> \<and>
   moved (fst (resolve_clutter (MapDeclutterEngine_init scene_heap [2, 3]) scene_heap) 3)"
  by (rule label_road_aux [of 3 "[2, 3]" 2 scene_heap "''L1''" "''road_1''"])
    (simp_all add: scene_objects scene_only_fixed)

lemma scene_step:
  "resolve_step \<lparr>elements = [2, 3], fixed_elements = [2], movable_elements = [3]\<rparr> 3
     (scene_heap, False) =
   (relocate scene_heap 3 \<lparr>box_x = 30, box_y = 98, width = 25, height = 12\<rparr>, True)"
  by (simp add: scene_objects MapElement_init_sel PRIORITY_get_known
      resolve_step_def find_overlaps_def detect_overlap_def intersects_def
      reposition_element_def MOVEMENT_OFFSETS_def is_valid_position_def move_def relocate_def)

lemma scene_pass:
  "resolve_pass (MapDeclutterEngine_init scene_heap [2, 3])
     (movable_elements (MapDeclutterEngine_init scene_heap [2, 3])) (scene_heap, False) =
   (relocate scene_heap 3 \<lparr>box_x = 30, box_y = 98, width = 25, height = 12\<rparr>, True)"
  by (simp add: scene_engine scene_step)

lemma scene_final:
  "resolve_clutter (MapDeclutterEngine_init scene_heap [2, 3]) scene_heap =
   (relocate scene_heap 3 \<lparr>box_x = 30, box_y = 98, width = 25, height = 12\<rparr>, 2)"
  using resolve_clutter_init_unroll [OF scene_pass] by simp

lemma scene_after:
  "movable (relocate scene_heap 3 \<lparr>box_x = 30, box_y = 98, width = 25, height = 12\<rparr> 3)"
  "bbox (relocate scene_heap 3 \<lparr>box_x = 30, box_y = 98, width = 25, height = 12\<rparr> 3) =
     \<lparr>box_x = 30, box_y = 98, width = 25, height = 12\<rparr>"
  "relocate scene_heap 3 \<lparr>box_x = 30, box_y = 98, width = 25, height = 12\<rparr> 2 = scene_heap 2"
  by (simp_all add: relocate_def scene_objects MapElement_init_sel PRIORITY_get_known)

lemma clash_objects:
  "clash_heap 2 =
     MapElement_init ''a'' ''road'' \<lparr>box_x = 20, box_y = 80, width = 160, height = 15\<rparr>"
  "clash_heap 3 =
     MapElement_init ''a'' ''label'' \<lparr>box_x = 30, box_y = 83, width = 25, height = 12\<rparr>"
  by (simp_all add: clash_heap_def)

lemma clash_engine:
  "MapDeclutterEngine_init clash_heap [2, 3] =
     \<lparr>elements = [2, 3], fixed_elements = [2], movable_elements = [3]\<rparr>"
  by (simp add: MapDeclutterEngine_init_def clash_objects MapElement_init_sel PRIORITY_get_known)

lemma clash_step:
  "resolve_step \<lparr>elements = [2, 3], fixed_elements = [2], movable_elements = [3]\<rparr> 3
     (clash_heap, False) = (clash_heap, False)"
  by (simp add: clash_objects MapElement_init_sel resolve_step_def find_overlaps_def)

lemma clash_pass:
  "resolve_pass (MapDeclutterEngine_init clash_heap [2, 3])
     (movable_elements (MapDeclutterEngine_init clash_heap [2, 3])) (clash_heap, False) =
   (clash_heap, False)"
  by (simp add: clash_engine clash_step)

lemma clash_result:
  "resolve_clutter (MapDeclutterEngine_init clash_heap [2, 3]) clash_heap = (clash_heap, 1)"
  using resolve_clutter_init_unroll [OF clash_pass] by simp

lemma clash_facts:
  "movable (clash_heap 3)" "\<not> movable (clash_heap 2)"
  "elem_id (clash_heap 3) = elem_id (clash_heap 2)"
  "intersects (bbox (clash_heap 3)) (bbox (clash_heap 2))"
  "is_valid_position (MapDeclutterEngine_init clash_heap [2, 3]) clash_heap
     (move (bbox (clash_heap 3)) 0 15) (elem_id (clash_heap 3))"
  by (simp_all add: clash_engine clash_objects MapElement_init_sel PRIORITY_get_known
      is_valid_position_def intersects_def move_def)


section \<open>Claims about \<open>resolve_clutter\<close>\<close>

text \<open>
  After \<open>resolve_clutter\<close> returns, every movable element of the engine intersects no
  fixed element whose id differs from its own, unless all eight candidate offsets of its
  position are rejected by \<open>_is_valid_position\<close>; and one more scan of the movable elements
  changes nothing.
\<close>

lemma resolve_clutter_settles:
  assumes "resolve_clutter (MapDeclutterEngine_init h els) h = (h', n)"
    and "m \<in> set els" and "movable (h' m)"
  shows "((\<forall>f\<in>set els. \<not> movable (h' f) \<and> elem_id (h' f) \<noteq> elem_id (h' m) \<longrightarrow>
             \<not> intersects (bbox (h' m)) (bbox (h' f))) \<or>
          (\<forall>(dx, dy)\<in>set MOVEMENT_OFFSETS.
             \<not> is_valid_position (MapDeclutterEngine_init h els) h'
                 (move (bbox (h' m)) dx dy) (elem_id (h' m)))) \<and>
         resolve_pass (MapDeclutterEngine_init h els)
           (movable_elements (MapDeclutterEngine_init h els)) (h', False) = (h', False)"
proof -
  let ?eng = "MapDeclutterEngine_init h els"
  obtain h1 any1 where p: "resolve_pass ?eng (movable_elements ?eng) (h, False) = (h1, any1)"
    by (cases "resolve_pass ?eng (movable_elements ?eng) (h, False)")
  have h': "h' = h1" using resolve_clutter_init_unroll [OF p] assms(1) by simp
  have c: "consistent ?eng h'"
    using pass_consistent [OF consistent_init, of h els "movable_elements ?eng" False] p h' by simp
  have els: "elements ?eng = els" by (simp add: MapDeclutterEngine_init_def)
  have fx: "fixed_elements ?eng = filter (\<lambda>e. \<not> movable (h' e)) els"
    and mv: "movable_elements ?eng = filter (\<lambda>e. movable (h' e)) els"
    using c els by (simp_all add: consistent_def)
  have "m \<in> set (movable_elements ?eng)" using assms(2,3) mv by simp
  then have "settled ?eng h' m"
    using pass_settles [OF consistent_init subset_refl, of m h els False] p h' by simp
  then consider "fixed_overlaps ?eng h' m = []" | "reposition_element ?eng h' m = None"
    by (auto simp: settled_def)
  then have first: "(\<forall>f\<in>set els. \<not> movable (h' f) \<and> elem_id (h' f) \<noteq> elem_id (h' m) \<longrightarrow>
             \<not> intersects (bbox (h' m)) (bbox (h' f))) \<or>
          (\<forall>(dx, dy)\<in>set MOVEMENT_OFFSETS.
             \<not> is_valid_position ?eng h' (move (bbox (h' m)) dx dy) (elem_id (h' m)))"
  proof cases
    case 1
    then have "\<forall>f\<in>set (fixed_elements ?eng).
        \<not> (elem_id (h' f) \<noteq> elem_id (h' m) \<and> intersects (bbox (h' m)) (bbox (h' f)))"
      unfolding fixed_overlaps_consistent [OF c] filter_empty_conv .
    then show ?thesis unfolding fx by auto
  next
    case 2
    then show ?thesis
      by (simp add: reposition_element_def reposition_scan_None_iff)
  qed
  have "resolve_pass ?eng (movable_elements ?eng) (h', False) = (h', False)"
    using pass_fixpoint [OF consistent_init p] h' by simp
  with first show ?thesis by simp
qed

text \<open>
  The restriction to fixed elements with another id comes from \<open>find_overlaps\<close>, which
  skips every element carrying the id of its argument. In \<open>clash_heap\<close>, where the label and
  the road carry the same id, the road is skipped, no reposition attempt is made and the
  label stays on the road although the offset \<open>(0, 15)\<close> is valid. The data model assumes
  ids to be unique, which excludes such a store.
\<close>

lemma duplicate_ids_keep_overlap:
  "resolve_clutter (MapDeclutterEngine_init clash_heap [2, 3]) clash_heap = (clash_heap, 1) \<and>
   movable (clash_heap 3) \<and> \<not> movable (clash_heap 2) \<and>
   elem_id (clash_heap 3) = elem_id (clash_heap 2) \<and>
   intersects (bbox (clash_heap 3)) (bbox (clash_heap 2)) \<and>
   is_valid_position (MapDeclutterEngine_init clash_heap [2, 3]) clash_heap
     (move (bbox (clash_heap 3)) 0 15) (elem_id (clash_heap 3))"
  using clash_result clash_facts by simp

text \<open>
  C1: the ids of the elements of an engine are unique (the assumption of the data model).
  After \<open>resolve_clutter\<close> returns, the bbox of every movable element intersects the bbox
  of no fixed element, except for a movable element for which all eight candidate offsets
  are rejected by \<open>_is_valid_position\<close>. The store returned is the one the last iteration
  started from, so the rejected candidates are those of the element's last reposition
  attempt; and one more scan of the movable elements changes nothing, so such an element
  keeps the bbox it had when that attempt was made.
\<close>

theorem resolve_clutter_no_fixed_overlap:
  assumes "resolve_clutter (MapDeclutterEngine_init h els) h = (h', n)"
    and "\<forall>a\<in>set els. \<forall>b\<in>set els. a \<noteq> b \<longrightarrow> elem_id (h a) \<noteq> elem_id (h b)"
    and "m \<in> set els" and "movable (h' m)"
  shows "((\<forall>f\<in>set els. \<not> movable (h' f) \<longrightarrow> \<not> intersects (bbox (h' m)) (bbox (h' f))) \<or>
          (\<forall>(dx, dy)\<in>set MOVEMENT_OFFSETS.
             \<not> is_valid_position (MapDeclutterEngine_init h els) h'
                 (move (bbox (h' m)) dx dy) (elem_id (h' m)))) \<and>
         resolve_pass (MapDeclutterEngine_init h els)
           (movable_elements (MapDeclutterEngine_init h els)) (h', False) = (h', False)"
proof -
  let ?eng = "MapDeclutterEngine_init h els"
  let ?rejected = "\<forall>(dx, dy)\<in>set MOVEMENT_OFFSETS.
      \<not> is_valid_position ?eng h' (move (bbox (h' m)) dx dy) (elem_id (h' m))"
  obtain h1 any1 where p: "resolve_pass ?eng (movable_elements ?eng) (h, False) = (h1, any1)"
    by (cases "resolve_pass ?eng (movable_elements ?eng) (h, False)")
  have h': "h' = h1" using resolve_clutter_init_unroll [OF p] assms(1) by simp
  have ids: "elem_id (h' e) = elem_id (h e)" for e
    using pass_elem_id [of ?eng "movable_elements ?eng" h False e] p h' by simp
  have other: "elem_id (h' f) \<noteq> elem_id (h' m)" if "f \<in> set els" and "\<not> movable (h' f)" for f
  proof -
    have "f \<noteq> m" using that(2) assms(4) by auto
    then have "elem_id (h f) \<noteq> elem_id (h m)" using assms(2,3) that(1) by blast
    then show ?thesis by (simp add: ids)
  qed
  note settles = resolve_clutter_settles [OF assms(1,3,4)]
  from settles have cases:
    "(\<forall>f\<in>set els. \<not> movable (h' f) \<and> elem_id (h' f) \<noteq> elem_id (h' m) \<longrightarrow>
        \<not> intersects (bbox (h' m)) (bbox (h' f))) \<or> ?rejected"
    by (rule conjunct1)
  from settles have fp: "resolve_pass ?eng (movable_elements ?eng) (h', False) = (h', False)"
    by (rule conjunct2)
  from cases have
    "(\<forall>f\<in>set els. \<not> movable (h' f) \<longrightarrow> \<not> intersects (bbox (h' m)) (bbox (h' f))) \<or> ?rejected"
  proof
    assume a: "\<forall>f\<in>set els. \<not> movable (h' f) \<and> elem_id (h' f) \<noteq> elem_id (h' m) \<longrightarrow>
        \<not> intersects (bbox (h' m)) (bbox (h' f))"
    have "\<forall>f\<in>set els. \<not> movable (h' f) \<longrightarrow> \<not> intersects (bbox (h' m)) (bbox (h' f))"
    proof (intro ballI impI)
      fix f assume f: "f \<in> set els" "\<not> movable (h' f)"
      then show "\<not> intersects (bbox (h' m)) (bbox (h' f))"
        using a other [OF f] by blast
    qed
    then show ?thesis ..
  next
    assume ?rejected
    then show ?thesis ..
  qed
  with fp show ?thesis by (rule conjI [rotated])
qed

theorem resolve_clutter_no_fixed_overlap_witness:
  "resolve_clutter (MapDeclutterEngine_init scene_heap [2, 3]) scene_heap =
     (relocate scene_heap 3 \<lparr>box_x = 30, box_y = 98, width = 25, height = 12\<rparr>, 2) \<and>
   elem_id (scene_heap 2) \<noteq> elem_id (scene_heap 3) \<and>
   (3::nat) \<in> set [2, 3] \<and>
   movable (relocate scene_heap 3 \<lparr>box_x = 30, box_y = 98, width = 25, height = 12\<rparr> 3) \<and>
   \<not> intersects
       (bbox (relocate scene_heap 3 \<lparr>box_x = 30, box_y = 98, width = 25, height = 12\<rparr> 3))
       (bbox (relocate scene_heap 3 \<lparr>box_x = 30, box_y = 98, width = 25, height = 12\<rparr> 2)) \<and>
   resolve_pass (MapDeclutterEngine_init scene_heap [2, 3])
     (movable_elements (MapDeclutterEngine_init scene_heap [2, 3]))
     (relocate scene_heap 3 \<lparr>box_x = 30, box_y = 98, width = 25, height = 12\<rparr>, False) =
   (relocate scene_heap 3 \<lparr>box_x = 30, box_y = 98, width = 25, height = 12\<rparr>, False)"
proof -
  have mem: "(3::nat) \<in> set [2, 3]" by simp
  have ne: "elem_id (scene_heap 2) \<noteq> elem_id (scene_heap 3)"
    by (simp add: scene_objects MapElement_init_sel)
  then have unique: "\<forall>a\<in>set [2, 3]. \<forall>b\<in>set [2, 3]. a \<noteq> b \<longrightarrow>
      elem_id (scene_heap a) \<noteq> elem_id (scene_heap b)"
    by auto
  have sep: "\<not> intersects
       (bbox (relocate scene_heap 3 \<lparr>box_x = 30, box_y = 98, width = 25, height = 12\<rparr> 3))
       (bbox (relocate scene_heap 3 \<lparr>box_x = 30, box_y = 98, width = 25, height = 12\<rparr> 2))"
    by (simp add: scene_after scene_objects MapElement_init_sel intersects_def)
  have "resolve_pass (MapDeclutterEngine_init scene_heap [2, 3])
     (movable_elements (MapDeclutterEngine_init scene_heap [2, 3]))
     (relocate scene_heap 3 \<lparr>box_x = 30, box_y = 98, width = 25, height = 12\<rparr>, False) =
   (relocate scene_heap 3 \<lparr>box_x = 30, box_y = 98, width = 25, height = 12\<rparr>, False)"
    using resolve_clutter_no_fixed_overlap [OF scene_final unique mem scene_after(1)]
    by (rule conjunct2)
  then show ?thesis
    using scene_final ne mem scene_after(1) sep by (intro conjI)
qed

text \<open>
  C2, as stated, fails: the candidate \<open>(30, 68, 25, 12)\<close> ends at \<open>y = 80\<close>, where the
  road begins, and touching boxes intersect, so the first offset is rejected. The label
  goes to \<open>(30, 98, 25, 12)\<close>, the second offset \<open>(0, 15)\<close>.
\<close>

theorem label_road_counterexample:
  "bbox (fst (resolve_clutter (MapDeclutterEngine_init scene_heap [2, 3]) scene_heap) 3) =
     \<lparr>box_x = 30, box_y = 98, width = 25, height = 12\<rparr> \<and>
   bbox (fst (resolve_clutter (MapDeclutterEngine_init scene_heap [2, 3]) scene_heap) 3) \<noteq>
     \<lparr>box_x = 30, box_y = 68, width = 25, height = 12\<rparr> \<and>
   move (bbox (scene_heap 3)) 0 (-15) = \<lparr>box_x = 30, box_y = 68, width = 25, height = 12\<rparr> \<and>
   intersects \<lparr>box_x = 30, box_y = 68, width = 25, height = 12\<rparr> (bbox (scene_heap 2)) \<and>
   \<not> is_valid_position (MapDeclutterEngine_init scene_heap [2, 3]) scene_heap
       \<lparr>box_x = 30, box_y = 68, width = 25, height = 12\<rparr> (elem_id (scene_heap 3))"
  using scene_result
  by (simp add: scene_engine scene_objects MapElement_init_sel move_def intersects_def
      is_valid_position_def)

text \<open>
  C2, amended: for an engine that contains a label constructed with bbox
  \<open>(30, 83, 25, 12)\<close> and a road constructed with bbox \<open>(20, 80, 160, 15)\<close> and another
  id, the road being the only fixed element, \<open>resolve_clutter\<close> moves the label to
  \<open>(30, 98, 25, 12)\<close> and sets its \<open>moved\<close> flag.
\<close>

theorem label_road_relocation:
  assumes "l \<in> set els" and "r \<in> set els"
    and "h l = MapElement_init lid ''label'' \<lparr>box_x = 30, box_y = 83, width = 25, height = 12\<rparr>"
    and "h r = MapElement_init rid ''road'' \<lparr>box_x = 20, box_y = 80, width = 160, height = 15\<rparr>"
    and "\<forall>e\<in>set els. \<not> movable (h e) \<longrightarrow> e = r"
    and "lid \<noteq> rid"
  shows "bbox (fst (resolve_clutter (MapDeclutterEngine_init h els) h) l) =
           \<lparr>box_x = 30, box_y = 98, width = 25, height = 12\<rparr> \<and>
         moved (fst (resolve_clutter (MapDeclutterEngine_init h els) h) l)"
  using assms by (rule label_road_aux)

theorem label_road_relocation_witness:
  "(3::nat) \<in> set [2, 3] \<and> (2::nat) \<in> set [2, 3] \<and>
   scene_heap 3 =
     MapElement_init ''L1'' ''label'' \<lparr>box_x = 30, box_y = 83, width = 25, height = 12\<rparr> \<and>
   scene_heap 2 =
     MapElement_init ''road_1'' ''road'' \<lparr>box_x = 20, box_y = 80, width = 160, height = 15\<rparr> \<and>
   list_all (\<lambda>e. movable (scene_heap e) \<or> e = 2) [2, 3] \<and>
   ''L1'' \<noteq> ''road_1'' \<and>
   bbox (fst (resolve_clutter (MapDeclutterEngine_init scene_heap [2, 3]) scene_heap) 3) =
     \<lparr>box_x = 30, box_y = 98, width = 25, height = 12\<rparr> \<and>
   moved (fst (resolve_clutter (MapDeclutterEngine_init scene_heap [2, 3]) scene_heap) 3)"
proof -
  have only: "\<forall>e\<in>set [2, 3]. \<not> movable (scene_heap e) \<longrightarrow> e = 2"
    by (simp add: scene_objects MapElement_init_sel PRIORITY_get_known)
  have res: "bbox (fst (resolve_clutter (MapDeclutterEngine_init scene_heap [2, 3]) scene_heap) 3) =
          \<lparr>box_x = 30, box_y = 98, width = 25, height = 12\<rparr> \<and>
        moved (fst (resolve_clutter (MapDeclutterEngine_init scene_heap [2, 3]) scene_heap) 3)"
    by (rule label_road_relocation [of 3 "[2, 3]" 2 scene_heap "''L1''" "''road_1''"])
      (simp_all add: scene_objects only)
  have lst: "list_all (\<lambda>e. movable (scene_heap e) \<or> e = 2) [2, 3]"
    by (simp add: scene_objects MapElement_init_sel PRIORITY_get_known)
  have ids: "''L1'' \<noteq> ''road_1''" by simp
  show ?thesis
    using scene_objects(2) scene_objects(1) lst ids res by (intro conjI) simp_all
qed



text \<open>
  C5: \<open>resolve_clutter\<close> returns at most 2 for every engine: after the first iteration
  every movable element is settled, so the second iteration repositions nothing.
\<close>

theorem resolve_clutter_at_most_two:
  "snd (resolve_clutter (MapDeclutterEngine_init h els) h) \<le> 2"
proof -
  obtain h1 any1 where
    "resolve_pass (MapDeclutterEngine_init h els)
       (movable_elements (MapDeclutterEngine_init h els)) (h, False) = (h1, any1)"
    by (cases "resolve_pass (MapDeclutterEngine_init h els)
       (movable_elements (MapDeclutterEngine_init h els)) (h, False)")
  then show ?thesis by (simp add: resolve_clutter_init_unroll)
qed

text \<open>
  C7: \<open>resolve_clutter\<close> leaves the bbox and the \<open>moved\<close> flag of every element that
  is not movable as they were.
\<close>

theorem resolve_clutter_keeps_fixed:
  assumes "resolve_clutter (MapDeclutterEngine_init h els) h = (h', n)"
    and "\<not> movable (h e)"
  shows "bbox (h' e) = bbox (h e) \<and> moved (h' e) = moved (h e)"
proof -
  let ?eng = "MapDeclutterEngine_init h els"
  obtain h1 any1 where p: "resolve_pass ?eng (movable_elements ?eng) (h, False) = (h1, any1)"
    by (cases "resolve_pass ?eng (movable_elements ?eng) (h, False)")
  have "h' = h1" using resolve_clutter_init_unroll [OF p] assms(1) by simp
  moreover have "e \<notin> set (movable_elements ?eng)"
    using assms(2) movable_is_movable [OF consistent_init] by blast
  ultimately have "h' e = h e"
    using pass_at [OF consistent_init subset_refl, of h els False e] p by simp
  then show ?thesis by simp
qed

theorem resolve_clutter_keeps_fixed_witness:
  "resolve_clutter (MapDeclutterEngine_init scene_heap [2, 3]) scene_heap =
     (relocate scene_heap 3 \<lparr>box_x = 30, box_y = 98, width = 25, height = 12\<rparr>, 2) \<and>
   \<not> movable (scene_heap 2) \<and>
   bbox (relocate scene_heap 3 \<lparr>box_x = 30, box_y = 98, width = 25, height = 12\<rparr> 2) =
     \<lparr>box_x = 20, box_y = 80, width = 160, height = 15\<rparr> \<and>
   moved (relocate scene_heap 3 \<lparr>box_x = 30, box_y = 98, width = 25, height = 12\<rparr> 2) = False"
proof -
  have fixed: "\<not> movable (scene_heap 2)"
    by (simp add: scene_objects MapElement_init_sel PRIORITY_get_known)
  have "bbox (relocate scene_heap 3 \<lparr>box_x = 30, box_y = 98, width = 25, height = 12\<rparr> 2) =
          bbox (scene_heap 2) \<and>
        moved (relocate scene_heap 3 \<lparr>box_x = 30, box_y = 98, width = 25, height = 12\<rparr> 2) =
          moved (scene_heap 2)"
    by (rule resolve_clutter_keeps_fixed [OF scene_final fixed])
  then show ?thesis
    using scene_final fixed by (simp add: scene_objects MapElement_init_sel)
qed

text \<open>
  C8: \<open>original_bbox\<close> of a constructed element is the bbox it was constructed with,
  and it stays so after any number of calls of \<open>resolve_clutter\<close>, on any engine.
\<close>

theorem original_bbox_preserved:
  assumes "h e = MapElement_init i t b"
  shows "original_bbox (((\<lambda>g. fst (resolve_clutter eng g)) ^^ k) h e) = b"
  using assms by (simp add: repeated_original_bbox MapElement_init_sel)

theorem original_bbox_preserved_witness:
  "scene_heap 3 =
     MapElement_init ''L1'' ''label'' \<lparr>box_x = 30, box_y = 83, width = 25, height = 12\<rparr> \<and>
   original_bbox
     (((\<lambda>g. fst (resolve_clutter (MapDeclutterEngine_init scene_heap [2, 3]) g)) ^^ Suc 0)
        scene_heap 3) =
     \<lparr>box_x = 30, box_y = 83, width = 25, height = 12\<rparr> \<and>
   bbox (fst (resolve_clutter (MapDeclutterEngine_init scene_heap [2, 3]) scene_heap) 3) =
     \<lparr>box_x = 30, box_y = 98, width = 25, height = 12\<rparr>"
proof -
  have "original_bbox
     (((\<lambda>g. fst (resolve_clutter (MapDeclutterEngine_init scene_heap [2, 3]) g)) ^^ Suc 0)
        scene_heap 3) =
     \<lparr>box_x = 30, box_y = 83, width = 25, height = 12\<rparr>"
    by (rule original_bbox_preserved [of scene_heap 3, OF scene_objects(2)])
  then show ?thesis
    using scene_objects(2) scene_result by (intro conjI) simp_all
qed

section \<open>Claims about \<open>get_statistics\<close>\<close>

text \<open>
  C10, as stated, fails: in the scene \<open>thirds_heap\<close> one of the three movable elements has
  moved when \<open>resolve_clutter\<close> returns, and \<open>move_percentage\<close> is the float
  \<open>2345624805922133 / 2 ^ 46\<close>, printed as \<open>33.33333333333333\<close>. It is neither the number
  \<open>100 * 1 / 3\<close> nor the float that Python gives for the expression \<open>100 * 1 / 3\<close>, which is
  \<open>33.333333333333336\<close>: the source divides first and multiplies afterwards, and both
  operations round.
\<close>

theorem move_percentage_inexact:
  "stat_movable_elements (get_statistics thirds_engine thirds_after) = 3 \<and>
   stat_elements_moved (get_statistics thirds_engine thirds_after) = 1 \<and>
   stat_move_percentage (get_statistics thirds_engine thirds_after) =
     2345624805922133 / 2 ^ 46 \<and>
   stat_move_percentage (get_statistics thirds_engine thirds_after) \<noteq> 100 * 1 / 3 \<and>
   stat_move_percentage (get_statistics thirds_engine thirds_after) \<noteq>
     int_truediv (100 * 1) 3"
  by code_simp

text \<open>
  C10, amended: \<open>elements_moved\<close> is the number of movable elements with \<open>moved\<close> set and
  \<open>movable_elements\<close> the number of movable elements. \<open>move_percentage\<close> is \<open>0\<close> when there is
  no movable element. Otherwise it is the float product by \<open>100\<close> of the float quotient
  \<open>elements_moved / movable_elements\<close>, each of the two operations rounded to the nearest
  float; it differs from \<open>100 * elements_moved / movable_elements\<close> by a relative error of at
  most \<open>2 ^ (- 51)\<close>, and it is exactly \<open>0\<close> when no element has moved and exactly \<open>100\<close>
  when all movable elements have moved.
\<close>

theorem get_statistics_move_percentage:
  assumes "s = get_statistics eng h"
    and "m = length (filter (\<lambda>e. moved (h e)) (movable_elements eng))"
    and "t = length (movable_elements eng)"
  shows "stat_elements_moved s = int m \<and> stat_movable_elements s = int t \<and>
         (t = 0 \<longrightarrow> stat_move_percentage s = 0) \<and>
         (0 < t \<longrightarrow>
            stat_move_percentage s = round_double (round_double (of_nat m / of_nat t) * 100) \<and>
            \<bar>stat_move_percentage s - 100 * of_nat m / of_nat t\<bar> \<le>
              (100 * of_nat m / of_nat t) / 2 ^ 51) \<and>
         (0 < t \<and> m = 0 \<longrightarrow> stat_move_percentage s = 0) \<and>
         (0 < t \<and> m = t \<longrightarrow> stat_move_percentage s = 100)"
proof -
  have cnt: "stat_elements_moved s = int m" "stat_movable_elements s = int t"
    by (simp_all add: assms get_statistics_sel)
  have zero: "t = 0 \<Longrightarrow> stat_move_percentage s = 0"
    by (simp add: assms get_statistics_sel)
  have val: "stat_move_percentage s = round_double (round_double (of_nat m / of_nat t) * 100)"
    if "0 < t"
    using that by (auto simp: assms get_statistics_sel)
  have err: "\<bar>stat_move_percentage s - 100 * of_nat m / of_nat t\<bar> \<le>
      (100 * of_nat m / of_nat t) / 2 ^ 51" if t: "0 < t"
  proof (cases "m = 0")
    case True
    then show ?thesis by (simp add: val [OF t] round_double_exact)
  next
    case False
    then have "(0::rat) < of_nat m / of_nat t" using t by simp
    then show ?thesis
      using percentage_error [of "of_nat m / of_nat t"] by (simp add: val [OF t])
  qed
  have none: "stat_move_percentage s = 0" if "0 < t" and "m = 0"
    using that by (simp add: val round_double_exact)
  have all: "stat_move_percentage s = 100" if "0 < t" and "m = t"
    using that by (simp add: val round_double_exact)
  show ?thesis
    using cnt zero val err none all by blast
qed

theorem get_statistics_move_percentage_witness:
  "stat_elements_moved (get_statistics thirds_engine thirds_after) = 1 \<and>
   stat_movable_elements (get_statistics thirds_engine thirds_after) = 3 \<and>
   stat_move_percentage (get_statistics thirds_engine thirds_after) =
     round_double (round_double (1 / 3) * 100) \<and>
   \<bar>stat_move_percentage (get_statistics thirds_engine thirds_after) - 100 / 3\<bar> \<le>
     (100 / 3) / 2 ^ 51"
proof -
  have m: "(1::nat) = length (filter (\<lambda>e. moved (thirds_after e)) (movable_elements thirds_engine))"
    by code_simp
  have t: "(3::nat) = length (movable_elements thirds_engine)"
    by code_simp
  note inst = get_statistics_move_percentage [OF refl m t]
  have "stat_elements_moved (get_statistics thirds_engine thirds_after) = 1"
    using inst by simp
  moreover have "stat_movable_elements (get_statistics thirds_engine thirds_after) = 3"
    using inst by simp
  moreover have "stat_move_percentage (get_statistics thirds_engine thirds_after) =
      round_double (round_double (1 / 3) * 100)"
    using inst by simp
  moreover have "\<bar>stat_move_percentage (get_statistics thirds_engine thirds_after) - 100 / 3\<bar> \<le>
      (100 / 3) / 2 ^ 51"
  proof -
    have "0 < (3::nat)" by simp
    with inst have "\<bar>stat_move_percentage (get_statistics thirds_engine thirds_after) -
        100 * of_nat 1 / of_nat 3\<bar> \<le> (100 * of_nat 1 / of_nat 3) / 2 ^ 51"
      by blast
    then show ?thesis by simp
  qed
  ultimately show ?thesis by (intro conjI)
qed

end
